theory Spec2Isabelle
  imports Main "HOL-Library.Multiset" "HOL-Library.Char_ord" "HOL-Library.List_Lexorder"
begin

section \<open>String primitives of the Go standard library used by consulator.go\<close>

text \<open>
  A Go string is a sequence of bytes; it is modelled as a \<open>string\<close> (a list of 8-bit
  characters). The functions below follow the package \<open>strings\<close> and
  \<open>path/filepath\<close> on a platform whose path separator is the slash.
\<close>

definition PathSeparator :: char where
  "PathSeparator = CHR ''/''"

definition HasPrefix :: "string \<Rightarrow> string \<Rightarrow> bool" where
  "HasPrefix s p = (length p \<le> length s \<and> take (length p) s = p)"

definition HasSuffix :: "string \<Rightarrow> string \<Rightarrow> bool" where
  "HasSuffix s p = (length p \<le> length s \<and> drop (length s - length p) s = p)"

definition TrimPrefix :: "string \<Rightarrow> string \<Rightarrow> string" where
  "TrimPrefix s p = (if HasPrefix s p then drop (length p) s else s)"

definition TrimSuffix :: "string \<Rightarrow> string \<Rightarrow> string" where
  "TrimSuffix s p = (if HasSuffix s p then take (length s - length p) s else s)"

text \<open>
  \<open>strings.Split(s, sep)\<close> for a separator of one byte, the only way the program
  calls it: the pieces between the occurrences of the separator, one more piece than there
  are occurrences.
\<close>

fun Split :: "string \<Rightarrow> char \<Rightarrow> string list" where
  "Split [] sep = [[]]"
| "Split (c # cs) sep =
     (if c = sep then [] # Split cs sep
      else (case Split cs sep of
              [] \<Rightarrow> [[c]]
            | piece # pieces \<Rightarrow> (c # piece) # pieces))"

text \<open>
  \<open>filepath.Ext(path)\<close>: scan from the last byte towards the first, stop at a path
  separator, and return the suffix that starts at the first dot met. \<open>ExtScan\<close> walks
  the reversed path and carries the bytes already passed.
\<close>

fun ExtScan :: "string \<Rightarrow> string \<Rightarrow> string" where
  "ExtScan [] seen = []"
| "ExtScan (c # cs) seen =
     (if c = PathSeparator then []
      else if c = CHR ''.'' then c # seen
      else ExtScan cs (c # seen))"

definition Ext :: "string \<Rightarrow> string" where
  "Ext path = ExtScan (rev path) []"

text \<open>
  \<open>strings.ToLower\<close> on bytes: the letters A to Z are mapped to a to z, every other byte
  is kept. (Go lowers whole runes; no rune outside ASCII lowers to a byte of
  \<open>.json\<close>, \<open>.yml\<close> or \<open>.yaml\<close>.)
\<close>

definition lowerByte :: "char \<Rightarrow> char" where
  "lowerByte c =
     (let n = (of_char c :: nat) in if 65 \<le> n \<and> n \<le> 90 then char_of (n + 32) else c)"

definition ToLower :: "string \<Rightarrow> string" where
  "ToLower s = map lowerByte s"

section \<open>Prefix clean-up in \<open>main\<close>\<close>

definition cleanPrefix :: "string \<Rightarrow> string" where
  "cleanPrefix p =
     (let q = TrimSuffix (TrimPrefix p ''/'') ''/''
      in if q \<noteq> '''' then q @ ''/'' else q)"

section \<open>Key derivation in \<open>parseConfig\<close>\<close>

text \<open>
  The slice \<open>keyPrefix\<close> computed at the top of \<open>parseConfig\<close> from the global
  \<open>absPath\<close> and the callback's \<open>path\<close>. Reading \<open>keyPrefix[0]\<close> panics in Go
  when the slice is empty; the model returns \<open>None\<close> there.
\<close>

definition splitPath :: "string \<Rightarrow> string \<Rightarrow> string list" where
  "splitPath absPath path =
     Split (TrimPrefix (TrimSuffix (TrimPrefix path absPath) (Ext path)) [PathSeparator])
           PathSeparator"

definition keyPrefix :: "string \<Rightarrow> string \<Rightarrow> string list option" where
  "keyPrefix absPath path =
     (case splitPath absPath path of
        [] \<Rightarrow> None
      | first # others \<Rightarrow> Some (if first = '''' then [] else first # others))"

section \<open>Program state, environment and outcomes\<close>

text \<open>A Go \<open>error\<close> value, identified by its message.\<close>

datatype error = Err string

text \<open>Of an \<open>os.FileInfo\<close> the program reads \<open>Mode().IsRegular()\<close> only.\<close>

datatype fileinfo = FileInfo (IsRegular: bool)

text \<open>
  The \<open>*os.File\<close> handed to the parsers: the nil pointer that \<open>os.Open\<close> returns
  with an error, or a file (or pipe) that yields the given bytes.
\<close>

datatype reader = NilFile | Stream string

text \<open>The five loggers, and the messages the program gives them (format arguments kept).\<close>

datatype level = Trace | Debug | Info | Warning | Error

datatype message =
    MsgNoArguments
  | MsgLookingStdin string
  | MsgPathError string error
  | MsgFormatRequired
  | MsgLookingAt string
  | MsgError error
  | MsgArgumentCount nat
  | MsgFoundKeys nat
  | MsgTraversing string
  | MsgKeyprefix "string list"
  | MsgParsingAs string string
  | MsgExportError error

datatype event = Log level message | UsageShown | StdoutWrite string | SyncCalled

text \<open>
  The mutable state: the global map \<open>data\<close> and the chronological list of what the
  process has printed or called.
\<close>

record state =
  data :: "string \<rightharpoonup> string"
  events :: "event list"

text \<open>The globals that \<open>main\<close> sets before it calls \<open>parseConfig\<close>.\<close>

record globals =
  gPrefix :: string
  gNArgs :: nat
  gPath :: string
  gAbsPath :: string

text \<open>
  How a call ends: it returns a value, the process exits with a code (\<open>os.Exit\<close>, or
  \<open>Fatal\<close> of a logger, which exits with code 1), or it panics.
\<close>

datatype 'a outcome = Returned 'a state | Exited nat state | Panicked state

text \<open>
  What the process is started with and what the operating system answers: the flags and
  positional arguments, standard input, the file system as \<open>filepath.Abs\<close>,
  \<open>os.Stat\<close>, \<open>os.Open\<close> and \<open>filepath.Walk\<close> see it (for \<open>Walk\<close>: the
  entries it visits, in order, with the arguments it gives the callback), and the order in
  which \<open>range\<close> iterates a map in this run.
\<close>

record world =
  osArgs :: "string list"
  flagFormat :: string
  flagPrefix :: string
  flagDump :: bool
  flagSync :: bool
  stdinStat :: "fileinfo option"
  stdinBytes :: string
  fsAbs :: "string \<Rightarrow> string"
  fsStat :: "string \<Rightarrow> error option"
  fsOpen :: "string \<Rightarrow> error + string"
  fsWalk :: "string \<Rightarrow> (string \<times> fileinfo option \<times> error option) list"
  rangeOrder :: "(string \<rightharpoonup> string) \<Rightarrow> string list"

text \<open>
  Functions that \<open>consulator.go\<close> calls and does not define, taken as parameters:
  \<open>parseJson\<close> (reads the reader, writes into the map, returns an error or nil),
  \<open>yamlToJson\<close> (returns an error or nil, and the bytes it wrote to the pipe before it
  was closed), \<open>toExportEntry\<close>, the encoder \<open>json.MarshalIndent\<close> on the exported
  slice, and \<open>syncConsul\<close>.
\<close>

record 'e helpers =
  parseJson :: "reader \<Rightarrow> string list \<Rightarrow> (string \<rightharpoonup> string) \<Rightarrow> error option \<times> (string \<rightharpoonup> string)"
  yamlToJson :: "reader \<Rightarrow> error option \<times> string"
  toExportEntry :: "string \<Rightarrow> string \<Rightarrow> 'e"
  marshalIndent :: "'e option list \<Rightarrow> error + string"
  syncConsul :: "state \<Rightarrow> unit outcome"

definition emit :: "event \<Rightarrow> state \<Rightarrow> state" where
  "emit e s = s\<lparr>events := events s @ [e]\<rparr>"

definition warnIf :: "string \<Rightarrow> error option \<Rightarrow> state \<Rightarrow> state" where
  "warnIf path err s =
     (case err of None \<Rightarrow> s | Some e \<Rightarrow> emit (Log Warning (MsgPathError path e)) s)"

section \<open>\<open>parseConfig\<close>\<close>

text \<open>
  The \<open>switch\<close> at the end of \<open>parseConfig\<close>. In the YAML case the goroutine that
  runs \<open>yamlToJson\<close> and \<open>parseJson\<close> on the other end of the pipe are put in
  sequence: the transcoder's bytes are what the decoder reads.
\<close>

definition parseBody ::
  "'e helpers \<Rightarrow> string \<Rightarrow> reader \<Rightarrow> string list \<Rightarrow> state \<Rightarrow> error option outcome" where
  "parseBody h path fp kp s =
     (if HasSuffix (ToLower path) ''.json'' then
        (let s1 = emit (Log Debug (MsgParsingAs path ''json'')) s;
             (err, d) = parseJson h fp kp (data s1);
             s2 = s1\<lparr>data := d\<rparr>
         in case err of
              Some e \<Rightarrow> Exited 1 (emit (Log Error (MsgPathError path e)) s2)
            | None \<Rightarrow> Returned None s2)
      else if HasSuffix (ToLower path) ''.yml'' \<or> HasSuffix (ToLower path) ''.yaml'' then
        (let s1 = emit (Log Debug (MsgParsingAs path ''yaml'')) s;
             (terr, piped) = yamlToJson h fp;
             s2 = warnIf path terr s1;
             (err, d) = parseJson h (Stream piped) kp (data s2);
             s3 = s2\<lparr>data := d\<rparr>
         in Returned None (warnIf path err s3))
      else if HasSuffix (ToLower path) ''.properties'' then
        Returned None (emit (Log Debug (MsgParsingAs path ''properties'')) s)
      else if HasSuffix (ToLower path) ''.ini'' then
        Returned None (emit (Log Debug (MsgParsingAs path ''ini'')) s)
      else Returned None s)"

text \<open>
  From the warning on \<open>err\<close> to the end: \<open>keyPrefix[0]\<close> is read before the
  \<open>switch\<close>.
\<close>

definition parseOpened ::
  "'e helpers \<Rightarrow> globals \<Rightarrow> string \<Rightarrow> reader \<Rightarrow> error option \<Rightarrow> state \<Rightarrow> error option outcome" where
  "parseOpened h g path fp err s =
     (let s1 = warnIf path err s
      in case keyPrefix (gAbsPath g) path of
           None \<Rightarrow> Panicked s1
         | Some kp \<Rightarrow> parseBody h path fp kp (emit (Log Debug (MsgKeyprefix kp)) s1))"

text \<open>\<open>os.Open(path)\<close>: the file and nil, or the nil file and an error.\<close>

definition osOpen :: "world \<Rightarrow> string \<Rightarrow> reader \<times> error option" where
  "osOpen w path =
     (case fsOpen w path of Inl e \<Rightarrow> (NilFile, Some e) | Inr bytes \<Rightarrow> (Stream bytes, None))"

text \<open>
  The first \<open>if\<close> of \<open>parseConfig\<close>, which sets \<open>fp\<close> and \<open>err\<close>: a regular
  file is opened when there is one argument, standard input is taken when there is none
  (and \<open>err\<close> stays what the caller passed), and otherwise the function returns
  (\<open>None\<close>).
\<close>

definition selectInput ::
  "world \<Rightarrow> globals \<Rightarrow> string \<Rightarrow> fileinfo \<Rightarrow> error option \<Rightarrow> (reader \<times> error option) option" where
  "selectInput w g path fi err =
     (if IsRegular fi \<and> gNArgs g = 1 then Some (osOpen w path)
      else if gNArgs g = 0 then Some (Stream (stdinBytes w), err)
      else None)"

text \<open>
  \<open>parseConfig(path, f, err)\<close>. \<open>f.Mode()\<close> is the first thing evaluated after the
  trace line; on a nil \<open>f\<close> it panics.
\<close>

definition parseConfig ::
  "'e helpers \<Rightarrow> world \<Rightarrow> globals \<Rightarrow> string \<Rightarrow> fileinfo option \<Rightarrow> error option \<Rightarrow> state
     \<Rightarrow> error option outcome" where
  "parseConfig h w g path f err s =
     (let s0 = emit (Log Trace (MsgTraversing path)) s
      in case f of
           None \<Rightarrow> Panicked s0
         | Some fi \<Rightarrow>
             (case selectInput w g path fi err of
                None \<Rightarrow> Returned None s0
              | Some (fp, err') \<Rightarrow> parseOpened h g path fp err' s0))"

section \<open>\<open>filepath.Walk\<close> with \<open>parseConfig\<close> as its callback\<close>

text \<open>
  The callback is called on each visited entry in turn; a non-nil error returned by the
  callback ends the walk, which returns that error.
\<close>

fun Walk ::
  "'e helpers \<Rightarrow> world \<Rightarrow> globals \<Rightarrow> (string \<times> fileinfo option \<times> error option) list \<Rightarrow> state
     \<Rightarrow> error option outcome" where
  "Walk h w g [] s = Returned None s"
| "Walk h w g ((path, f, err) # rest) s =
     (case parseConfig h w g path f err s of
        Returned None s' \<Rightarrow> Walk h w g rest s'
      | Returned (Some e) s' \<Rightarrow> Returned (Some e) s'
      | Exited c s' \<Rightarrow> Exited c s'
      | Panicked s' \<Rightarrow> Panicked s')"

section \<open>\<open>exportData\<close>\<close>

text \<open>
  The \<open>range\<close> loop: the slice \<open>exported\<close> has \<open>len(data)\<close> nil pointers at the
  start, and the entry of the \<open>i\<close>-th key met is stored at index \<open>i\<close>. An index out of
  range panics (\<open>None\<close>); so does, in the model, a key that is not in the map.
\<close>

fun fillExported ::
  "(string \<Rightarrow> string \<Rightarrow> 'e) \<Rightarrow> (string \<rightharpoonup> string) \<Rightarrow> string list \<Rightarrow> nat \<Rightarrow> 'e option list
     \<Rightarrow> 'e option list option" where
  "fillExported te d [] i exported = Some exported"
| "fillExported te d (key # keys) i exported =
     (case d key of
        None \<Rightarrow> None
      | Some val \<Rightarrow>
          if i < length exported
          then fillExported te d keys (Suc i) (exported[i := Some (te key val)])
          else None)"

definition exportedEntries ::
  "(string \<Rightarrow> string \<Rightarrow> 'e) \<Rightarrow> string list \<Rightarrow> (string \<rightharpoonup> string) \<Rightarrow> 'e option list option" where
  "exportedEntries te keys d = fillExported te d keys 0 (replicate (card (dom d)) None)"

definition exportData :: "'e helpers \<Rightarrow> world \<Rightarrow> state \<Rightarrow> unit outcome" where
  "exportData h w s =
     (case exportedEntries (toExportEntry h) (rangeOrder w (data s)) (data s) of
        None \<Rightarrow> Panicked s
      | Some exported \<Rightarrow>
          (case marshalIndent h exported of
             Inl e \<Rightarrow> Exited 1 (emit (Log Error (MsgExportError e)) s)
           | Inr js \<Rightarrow> Returned () (emit (StdoutWrite [CHR 0x0A]) (emit (StdoutWrite js) s))))"

text \<open>The order of a \<open>range\<close> over a map: every key once, in any order.\<close>

definition rangeOf :: "string list \<Rightarrow> (string \<rightharpoonup> string) \<Rightarrow> bool" where
  "rangeOf keys d = (distinct keys \<and> set keys = dom d)"

section \<open>\<open>main\<close>\<close>

definition usage :: "state \<Rightarrow> state" where
  "usage s = emit UsageShown s"

text \<open>The end of \<open>main\<close>, after the \<open>switch\<close> on the number of arguments.\<close>

definition finish :: "'e helpers \<Rightarrow> world \<Rightarrow> state \<Rightarrow> unit outcome" where
  "finish h w s =
     (let s1 = emit (Log Info (MsgFoundKeys (card (dom (data s))))) s
      in case (if flagDump w then exportData h w s1 else Returned () s1) of
           Returned u s2 \<Rightarrow>
             (if flagSync w then
                (case syncConsul h (emit SyncCalled s2) of
                   Returned u' s3 \<Rightarrow> Exited 0 s3
                 | Exited c s3 \<Rightarrow> Exited c s3
                 | Panicked s3 \<Rightarrow> Panicked s3)
              else Exited 0 s2)
         | Exited c s2 \<Rightarrow> Exited c s2
         | Panicked s2 \<Rightarrow> Panicked s2)"

text \<open>
  \<open>main\<close>: returning from it is the exit with code 0. The result is how the process
  ends, with the final state.
\<close>

definition main :: "'e helpers \<Rightarrow> world \<Rightarrow> unit outcome" where
  "main h w =
     (let g = \<lparr>gPrefix = cleanPrefix (flagPrefix w), gNArgs = length (osArgs w),
                gPath = [], gAbsPath = []\<rparr>;
          s = \<lparr>data = Map.empty, events = []\<rparr>
      in case osArgs w of
           [] \<Rightarrow>
             (let s1 = emit (Log Trace MsgNoArguments) s
              in if flagFormat w = ''json'' \<or> flagFormat w = ''yaml'' then
                   (case parseConfig h w g (''.'' @ flagFormat w) (stdinStat w) None
                           (emit (Log Info (MsgLookingStdin (flagFormat w))) s1) of
                      Returned None s2 \<Rightarrow> finish h w s2
                    | Returned (Some e) s2 \<Rightarrow>
                        finish h w (emit (Log Error (MsgPathError (gPath g) e)) s2)
                    | Exited c s2 \<Rightarrow> Exited c s2
                    | Panicked s2 \<Rightarrow> Panicked s2)
                 else Exited 1 (usage (emit (Log Error MsgFormatRequired) s1)))
         | [p] \<Rightarrow>
             (let g1 = g\<lparr>gPath := p, gAbsPath := fsAbs w p\<rparr>;
                  s1 = emit (Log Info (MsgLookingAt (gAbsPath g1))) s
              in case fsStat w (gAbsPath g1) of
                   Some e \<Rightarrow> Exited 1 (emit (Log Error (MsgError e)) s1)
                 | None \<Rightarrow>
                     (case Walk h w g1 (fsWalk w (gAbsPath g1)) s1 of
                        Returned None s2 \<Rightarrow> finish h w s2
                      | Returned (Some e) s2 \<Rightarrow> Exited 1 (emit (Log Error (MsgError e)) s2)
                      | Exited c s2 \<Rightarrow> Exited c s2
                      | Panicked s2 \<Rightarrow> Panicked s2))
         | p # q # ps \<Rightarrow>
             Exited 255 (usage (emit (Log Error (MsgArgumentCount (length (osArgs w)))) s)))"

section \<open>The specification's wording, for comparison\<close>

text \<open>
  The prefix as the specification words it: all leading and all trailing separators
  stripped, and one separator appended when something is left.
\<close>

definition normalizedPrefixSpec :: "string \<Rightarrow> string" where
  "normalizedPrefixSpec p =
     (let q = rev (dropWhile (\<lambda>c. c = CHR ''/'') (rev (dropWhile (\<lambda>c. c = CHR ''/'') p)))
      in if q \<noteq> [] then q @ ''/'' else q)"

text \<open>
  The segments as the specification words them: the extension is stripped only when it
  is, up to case, one of the declared format suffixes.
\<close>

definition formatSuffixes :: "string list" where
  "formatSuffixes = [''.json'', ''.yml'', ''.yaml'']"

definition splitPathSpec :: "string \<Rightarrow> string \<Rightarrow> string list" where
  "splitPathSpec absPath path =
     (let r = TrimPrefix path absPath;
          r' = (if ToLower (Ext path) \<in> set formatSuffixes then TrimSuffix r (Ext path) else r)
      in Split (TrimPrefix r' [PathSeparator]) PathSeparator)"

section \<open>A concrete environment\<close>

text \<open>
  Stand-ins for the parameters, used to run the model: a decoder that accepts the one
  document \<open>{"host":"x"}\<close> and stores \<open>x\<close> under the key segments joined by slashes,
  a transcoder that accepts the one YAML document \<open>host: x\<close>, export entries that are
  the pair of key and value, an encoder that never fails, and a sync that returns.
\<close>

definition joinKey :: "string list \<Rightarrow> string \<Rightarrow> string" where
  "joinKey kp k = foldr (\<lambda>seg rest. seg @ ''/'' @ rest) kp k"

definition demoParseJson ::
  "reader \<Rightarrow> string list \<Rightarrow> (string \<rightharpoonup> string) \<Rightarrow> error option \<times> (string \<rightharpoonup> string)" where
  "demoParseJson fp kp d =
     (case fp of
        NilFile \<Rightarrow> (Some (Err ''invalid argument''), d)
      | Stream bytes \<Rightarrow>
          if bytes = ''{\"host\":\"x\"}'' then (None, d(joinKey kp ''host'' \<mapsto> ''x''))
          else (Some (Err ''invalid character''), d))"

definition demoYamlToJson :: "reader \<Rightarrow> error option \<times> string" where
  "demoYamlToJson fp =
     (case fp of
        NilFile \<Rightarrow> (Some (Err ''invalid argument''), [])
      | Stream bytes \<Rightarrow>
          if bytes = ''host: x'' then (None, ''{\"host\":\"x\"}'')
          else (Some (Err ''yaml: did not find expected key''), []))"

definition demoHelpers :: "(string \<times> string) helpers" where
  "demoHelpers =
     \<lparr>parseJson = demoParseJson, yamlToJson = demoYamlToJson, toExportEntry = Pair,
      marshalIndent = (\<lambda>exported. Inr ''[]''), syncConsul = (\<lambda>s. Returned () s)\<rparr>"

text \<open>
  A directory \<open>/data\<close> with the files \<open>a.json\<close> (malformed), \<open>b.yaml\<close> (malformed),
  \<open>c.yml\<close> (well-formed), \<open>notes.txt\<close> and \<open>sub/.json\<close>; no flag is set. The walk
  visits the directory and three of the files; a map is iterated with \<open>host\<close> before
  \<open>c/host\<close>.
\<close>

definition demoFiles :: "(string \<times> string) list" where
  "demoFiles =
     [(''/data/a.json'', ''{''), (''/data/b.yaml'', ''host: [''), (''/data/c.yml'', ''host: x''),
      (''/data/notes.txt'', ''hello''), (''/data/sub/.json'', ''{\"host\":\"x\"}'')]"

definition demoWorld :: world where
  "demoWorld =
     \<lparr>osArgs = [''/data''], flagFormat = [], flagPrefix = [], flagDump = False,
      flagSync = False, stdinStat = Some (FileInfo False), stdinBytes = ''{\"host\":\"x\"}'',
      fsAbs = (\<lambda>p. p), fsStat = (\<lambda>p. None),
      fsOpen = (\<lambda>p. case map_of demoFiles p of
                       None \<Rightarrow> Inl (Err ''no such file or directory'')
                     | Some bytes \<Rightarrow> Inr bytes),
      fsWalk = (\<lambda>p. [(''/data'', Some (FileInfo False), None),
                       (''/data/b.yaml'', Some (FileInfo True), None),
                       (''/data/c.yml'', Some (FileInfo True), None),
                       (''/data/notes.txt'', Some (FileInfo True), None)]),
      rangeOrder = (\<lambda>d. filter (\<lambda>k. d k \<noteq> None) [''host'', ''c/host''])\<rparr>"

definition demoGlobals :: globals where
  "demoGlobals = \<lparr>gPrefix = [], gNArgs = 1, gPath = ''/data'', gAbsPath = ''/data''\<rparr>"

definition emptyState :: state where
  "emptyState = \<lparr>data = Map.empty, events = []\<rparr>"

section \<open>Facts about the string primitives\<close>

lemma Split_nonempty: "Split s sep \<noteq> []"
  by (induction s) (auto split: list.splits)


lemma HasPrefix_iff: "HasPrefix s p \<longleftrightarrow> (\<exists>x. s = p @ x)"
proof
  assume "HasPrefix s p"
  then have "s = p @ drop (length p) s"
    by (metis HasPrefix_def append_take_drop_id)
  then show "\<exists>x. s = p @ x" ..
next
  assume "\<exists>x. s = p @ x"
  then show "HasPrefix s p" by (auto simp: HasPrefix_def)
qed

lemma HasSuffix_iff: "HasSuffix s p \<longleftrightarrow> (\<exists>x. s = x @ p)"
proof
  assume "HasSuffix s p"
  then have "s = take (length s - length p) s @ p"
    by (metis HasSuffix_def append_take_drop_id)
  then show "\<exists>x. s = x @ p" ..
next
  assume "\<exists>x. s = x @ p"
  then show "HasSuffix s p" by (auto simp: HasSuffix_def)
qed

lemma TrimPrefix_append [simp]: "TrimPrefix (p @ x) p = x"
  by (simp add: TrimPrefix_def HasPrefix_def)

lemma TrimSuffix_append [simp]: "TrimSuffix (x @ p) p = x"
  by (simp add: TrimSuffix_def HasSuffix_def)

lemma lowerByte_dot: "lowerByte c = CHR ''.'' \<longleftrightarrow> c = CHR ''.''"
proof
  assume h: "lowerByte c = CHR ''.''"
  show "c = CHR ''.''"
  proof (cases "65 \<le> (of_char c :: nat) \<and> (of_char c :: nat) \<le> 90")
    case True
    then have "lowerByte c = char_of ((of_char c :: nat) + 32)"
      by (simp add: lowerByte_def Let_def)
    with h have "(of_char (char_of ((of_char c :: nat) + 32)) :: nat) = of_char (CHR ''.'')"
      by simp
    then have "((of_char c :: nat) + 32) mod 256 = 46" by simp
    with True show ?thesis by simp
  next
    case False
    with h show ?thesis by (simp add: lowerByte_def Let_def)
  qed
next
  assume "c = CHR ''.''"
  then show "lowerByte c = CHR ''.''" by (simp add: lowerByte_def)
qed

lemma lowerByte_dot_eq [simp]: "lowerByte CHR ''.'' = CHR ''.''"
  by (simp add: lowerByte_def)

lemma lowerByte_slash [simp]: "lowerByte CHR ''/'' = CHR ''/''"
  by (simp add: lowerByte_def)

lemma ExtScan_clean:
  "CHR ''.'' \<notin> set ys \<Longrightarrow> PathSeparator \<notin> set ys \<Longrightarrow>
   ExtScan (ys @ CHR ''.'' # zs) seen = CHR ''.'' # rev ys @ seen"
  by (induction ys arbitrary: seen) (auto simp: PathSeparator_def)

lemma Ext_dot:
  "CHR ''.'' \<notin> set e \<Longrightarrow> PathSeparator \<notin> set e \<Longrightarrow> Ext (x @ CHR ''.'' # e) = CHR ''.'' # e"
  using ExtScan_clean [of "rev e" "rev x" "[]"] by (simp add: Ext_def)

lemma ExtScan_shape:
  "ExtScan ys seen = [] \<or>
   (\<exists>a b. ys = a @ CHR ''.'' # b \<and> ExtScan ys seen = CHR ''.'' # rev a @ seen)"
proof (induction ys arbitrary: seen)
  case Nil
  then show ?case by simp
next
  case (Cons c cs)
  show ?case
  proof (cases "c = PathSeparator \<or> c = CHR ''.''")
    case True
    then show ?thesis by (auto simp: PathSeparator_def)
  next
    case False
    from Cons.IH [of "c # seen"] show ?thesis
    proof
      assume "ExtScan cs (c # seen) = []"
      with False show ?thesis by simp
    next
      assume "\<exists>a b. cs = a @ CHR ''.'' # b \<and> ExtScan cs (c # seen) = CHR ''.'' # rev a @ c # seen"
      then obtain a b where "cs = a @ CHR ''.'' # b"
        "ExtScan cs (c # seen) = CHR ''.'' # rev a @ c # seen" by blast
      with False have "c # cs = (c # a) @ CHR ''.'' # b \<and>
          ExtScan (c # cs) seen = CHR ''.'' # rev (c # a) @ seen" by simp
      then show ?thesis by blast
    qed
  qed
qed

lemma Ext_suffix: "HasSuffix path (Ext path)"
proof -
  from ExtScan_shape [of "rev path" "[]"] show ?thesis
  proof
    assume "ExtScan (rev path) [] = []"
    then show ?thesis by (simp add: Ext_def HasSuffix_def)
  next
    assume "\<exists>a b. rev path = a @ CHR ''.'' # b \<and> ExtScan (rev path) [] = CHR ''.'' # rev a @ []"
    then obtain a b where ab: "rev path = a @ CHR ''.'' # b" "Ext path = CHR ''.'' # rev a"
      by (auto simp: Ext_def)
    from ab(1) have "path = rev b @ CHR ''.'' # rev a"
      by (metis rev_append rev.simps(2) rev_rev_ident append.assoc append_Cons append_Nil)
    with ab(2) show ?thesis by (auto simp: HasSuffix_iff)
  qed
qed

lemma Ext_of_lower_suffix:
  assumes "HasSuffix (ToLower path) (CHR ''.'' # e)" "CHR ''.'' \<notin> set e" "CHR ''/'' \<notin> set e"
  shows "ToLower (Ext path) = CHR ''.'' # e"
proof -
  from assms(1) obtain x where "map lowerByte path = x @ CHR ''.'' # e"
    by (auto simp: HasSuffix_iff ToLower_def)
  then obtain px pe where p: "path = px @ pe" "map lowerByte pe = CHR ''.'' # e"
    by (auto simp: map_eq_append_conv)
  then obtain c pe' where pe: "pe = c # pe'" "lowerByte c = CHR ''.''" "map lowerByte pe' = e"
    by (auto simp: map_eq_Cons_conv)
  have c: "c = CHR ''.''" using pe(2) by (simp add: lowerByte_dot)
  have clean: "CHR ''.'' \<notin> set pe'" "PathSeparator \<notin> set pe'"
  proof -
    show "CHR ''.'' \<notin> set pe'"
    proof
      assume "CHR ''.'' \<in> set pe'"
      then have "lowerByte CHR ''.'' \<in> set (map lowerByte pe')" by (simp only: set_map image_eqI)
      with pe(3) assms(2) show False by simp
    qed
    show "PathSeparator \<notin> set pe'"
    proof
      assume "PathSeparator \<in> set pe'"
      then have "lowerByte CHR ''/'' \<in> set (map lowerByte pe')"
        by (simp only: set_map image_eqI PathSeparator_def)
      with pe(3) assms(3) show False by simp
    qed
  qed
  have "Ext path = CHR ''.'' # pe'"
    using Ext_dot [OF clean, of px] p(1) pe(1) c by simp
  then show ?thesis using pe(3) by (simp add: ToLower_def lowerByte_dot)
qed

lemma lower_suffix_of_Ext:
  assumes "ToLower (Ext path) = e"
  shows "HasSuffix (ToLower path) e"
proof -
  from Ext_suffix [of path] obtain x where "path = x @ Ext path" by (auto simp: HasSuffix_iff)
  then have "ToLower path = ToLower x @ ToLower (Ext path)"
    by (metis ToLower_def map_append)
  with assms show ?thesis by (auto simp: HasSuffix_iff)
qed


lemma TrimPrefix_slash:
  "TrimPrefix p ''/'' = (if p \<noteq> [] \<and> hd p = CHR ''/'' then tl p else p)"
  by (cases p) (auto simp: TrimPrefix_def HasPrefix_def)

lemma TrimSuffix_slash:
  "TrimSuffix q ''/'' = (if q \<noteq> [] \<and> last q = CHR ''/'' then butlast q else q)"
proof (cases q rule: rev_cases)
  case Nil
  then show ?thesis by (simp add: TrimSuffix_def HasSuffix_def)
next
  case (snoc ys y)
  then show ?thesis by (auto simp: TrimSuffix_def HasSuffix_def)
qed

lemma dropWhile_slash_once:
  assumes "\<not> HasPrefix p ''//''"
  shows "dropWhile (\<lambda>c. c = CHR ''/'') p = TrimPrefix p ''/''"
proof (cases p)
  case Nil
  then show ?thesis by (simp add: TrimPrefix_def HasPrefix_def)
next
  case (Cons c t)
  show ?thesis
  proof (cases "c = CHR ''/''")
    case True
    with assms Cons have "t = [] \<or> hd t \<noteq> CHR ''/''"
      by (cases t) (auto simp: HasPrefix_def)
    then have "dropWhile (\<lambda>c. c = CHR ''/'') t = t" by (cases t) auto
    with True Cons show ?thesis by (simp add: TrimPrefix_slash)
  next
    case False
    with Cons show ?thesis by (simp add: TrimPrefix_slash)
  qed
qed

lemma dropWhile_slash_end_once:
  assumes "\<not> HasSuffix q ''//''"
  shows "rev (dropWhile (\<lambda>c. c = CHR ''/'') (rev q)) = TrimSuffix q ''/''"
proof (cases q rule: rev_cases)
  case Nil
  then show ?thesis by (simp add: TrimSuffix_def HasSuffix_def)
next
  case (snoc ys y)
  show ?thesis
  proof (cases "y = CHR ''/''")
    case True
    have "ys = [] \<or> last ys \<noteq> CHR ''/''"
    proof (cases ys rule: rev_cases)
      case Nil
      then show ?thesis by simp
    next
      case (snoc zs z)
      with assms \<open>q = ys @ [y]\<close> True have "z \<noteq> CHR ''/''"
        by (auto simp: HasSuffix_iff)
      with snoc show ?thesis by simp
    qed
    then have "dropWhile (\<lambda>c. c = CHR ''/'') (rev ys) = rev ys"
      by (cases ys rule: rev_cases) auto
    with True snoc show ?thesis by (simp add: TrimSuffix_slash)
  next
    case False
    with snoc show ?thesis by (simp add: TrimSuffix_slash)
  qed
qed

lemma TrimPrefix_keeps_end:
  assumes "\<not> HasSuffix p ''//''"
  shows "\<not> HasSuffix (TrimPrefix p ''/'') ''//''"
proof
  assume "HasSuffix (TrimPrefix p ''/'') ''//''"
  then obtain x where x: "TrimPrefix p ''/'' = x @ ''//''" by (auto simp: HasSuffix_iff)
  have "\<exists>y. p = y @ TrimPrefix p ''/''"
    by (cases p) (auto simp: TrimPrefix_slash intro: exI [of _ "[]"] exI [of _ "[CHR ''/'']"])
  then obtain y where "p = y @ TrimPrefix p ''/''" ..
  with x have "p = (y @ x) @ ''//''" by simp
  then have "HasSuffix p ''//''" unfolding HasSuffix_iff by blast
  with assms show False ..
qed

section \<open>Prefix clean-up\<close>

text \<open>
  C6. The claim: the normalized prefix has all leading and all trailing separators
  stripped. The code strips one of each: \<open>//a//\<close> becomes \<open>/a//\<close>, where the claim
  says \<open>a/\<close>, and the separator-only prefix \<open>///\<close> becomes \<open>//\<close>, not the empty string.
\<close>

theorem cleanPrefix_strips_all_counterexample:
  "cleanPrefix ''//a//'' = ''/a//'' \<and> normalizedPrefixSpec ''//a//'' = ''a/'' \<and>
   cleanPrefix ''///'' = ''//'' \<and> normalizedPrefixSpec ''///'' = []"
  by (simp add: cleanPrefix_def normalizedPrefixSpec_def TrimPrefix_def TrimSuffix_def
      HasPrefix_def HasSuffix_def)

text \<open>
  C6, as amended. For every prefix string, \<open>cleanPrefix\<close> strips one leading separator if
  there is one, then one trailing separator if there is one, and appends one separator when
  the result is not empty. So a prefix that neither starts nor ends with two separators
  is normalized as the claim says, and the prefixes normalized to the empty string are the
  empty one, \<open>/\<close> and \<open>//\<close>.
\<close>

theorem cleanPrefix_strips_one:
  "cleanPrefix p =
     (let q = (if p \<noteq> [] \<and> hd p = CHR ''/'' then tl p else p);
          r = (if q \<noteq> [] \<and> last q = CHR ''/'' then butlast q else q)
      in if r = [] then [] else r @ ''/'') \<and>
   (\<not> HasPrefix p ''//'' \<and> \<not> HasSuffix p ''//'' \<longrightarrow> cleanPrefix p = normalizedPrefixSpec p) \<and>
   (cleanPrefix p = [] \<longleftrightarrow> p \<in> {[], ''/'', ''//''})"
proof (intro conjI)
  show "cleanPrefix p =
     (let q = (if p \<noteq> [] \<and> hd p = CHR ''/'' then tl p else p);
          r = (if q \<noteq> [] \<and> last q = CHR ''/'' then butlast q else q)
      in if r = [] then [] else r @ ''/'')"
    unfolding cleanPrefix_def TrimPrefix_slash TrimSuffix_slash by (simp add: Let_def)
  show "\<not> HasPrefix p ''//'' \<and> \<not> HasSuffix p ''//'' \<longrightarrow> cleanPrefix p = normalizedPrefixSpec p"
  proof
    assume h: "\<not> HasPrefix p ''//'' \<and> \<not> HasSuffix p ''//''"
    then have a: "dropWhile (\<lambda>c. c = CHR ''/'') p = TrimPrefix p ''/''"
      by (simp add: dropWhile_slash_once)
    from h have "\<not> HasSuffix (TrimPrefix p ''/'') ''//''"
      by (simp add: TrimPrefix_keeps_end)
    then have b: "rev (dropWhile (\<lambda>c. c = CHR ''/'') (rev (TrimPrefix p ''/'')))
        = TrimSuffix (TrimPrefix p ''/'') ''/''"
      by (rule dropWhile_slash_end_once)
    show "cleanPrefix p = normalizedPrefixSpec p"
      unfolding cleanPrefix_def normalizedPrefixSpec_def a b by simp
  qed
  have "cleanPrefix p = [] \<longleftrightarrow> TrimSuffix (TrimPrefix p ''/'') ''/'' = []"
    by (simp add: cleanPrefix_def Let_def)
  also have "\<dots> \<longleftrightarrow> TrimPrefix p ''/'' \<in> {[], ''/''}"
    unfolding TrimSuffix_slash
    by (cases "TrimPrefix p ''/''" rule: rev_cases) auto
  also have "\<dots> \<longleftrightarrow> p \<in> {[], ''/'', ''//''}"
    unfolding TrimPrefix_slash by (cases p) auto
  finally show "cleanPrefix p = [] \<longleftrightarrow> p \<in> {[], ''/'', ''//''}" .
qed

theorem cleanPrefix_strips_one_witness:
  "\<not> HasPrefix ''/svc/app/'' ''//'' \<and> \<not> HasSuffix ''/svc/app/'' ''//'' \<and>
   cleanPrefix ''/svc/app/'' = ''svc/app/'' \<and> normalizedPrefixSpec ''/svc/app/'' = ''svc/app/''"
proof -
  have h: "\<not> HasPrefix ''/svc/app/'' ''//'' \<and> \<not> HasSuffix ''/svc/app/'' ''//''"
    by (simp add: HasPrefix_def HasSuffix_def)
  from cleanPrefix_strips_one [of "''/svc/app/''"]
  have a: "cleanPrefix ''/svc/app/'' = ''svc/app/''" by simp
  from cleanPrefix_strips_one [of "''/svc/app/''"] h
  have b: "cleanPrefix ''/svc/app/'' = normalizedPrefixSpec ''/svc/app/''" by blast
  from b [symmetric] a have c: "normalizedPrefixSpec ''/svc/app/'' = ''svc/app/''"
    by (rule trans)
  from h a c show ?thesis by blast
qed

section \<open>Key derivation\<close>

lemma splitPath_nonempty: "splitPath absPath path \<noteq> []"
  by (simp add: splitPath_def Split_nonempty)

lemma keyPrefix_Some:
  "keyPrefix absPath path =
     Some (if hd (splitPath absPath path) = [] then [] else splitPath absPath path)"
  using splitPath_nonempty [of absPath path]
  by (cases "splitPath absPath path") (simp_all add: keyPrefix_def)

text \<open>
  C8. Key derivation is a total function of its inputs: for every root path and file path
  it yields a segment sequence. The read of \<open>keyPrefix[0]\<close> is in bounds because
  \<open>Split\<close> returns at least one piece for every string, so the panic branch of the
  model is never taken.
\<close>

theorem keyPrefix_total:
  "Split s sep \<noteq> [] \<and> splitPath absPath path \<noteq> [] \<and>
   (\<exists>segs. keyPrefix absPath path = Some segs)"
  by (simp add: Split_nonempty splitPath_nonempty keyPrefix_Some)

text \<open>
  C4. The claim: an extension outside \<open>.json\<close>, \<open>.yml\<close>, \<open>.yaml\<close> is not stripped.
  The code strips whatever \<open>filepath.Ext\<close> returns: for \<open>/data/app/db.txt\<close> under
  \<open>/data\<close> the segments are \<open>app\<close>, \<open>db\<close>, where the claim says \<open>app\<close>,
  \<open>db.txt\<close>.
\<close>

theorem splitPath_other_extension_counterexample:
  "splitPath ''/data'' ''/data/app/db.txt'' = [''app'', ''db''] \<and>
   splitPathSpec ''/data'' ''/data/app/db.txt'' = [''app'', ''db.txt'']"
  by code_simp

text \<open>
  C4, as amended. The segments are obtained by stripping the root path as a prefix of the
  file path, then stripping the extension of the file path, whatever it is (the suffix
  that starts at the last dot of the last path element), then stripping one leading
  separator, then splitting on the separator. For a file \<open>stem.e\<close> below the root
  the segments are those of \<open>stem\<close>, for every \<open>e\<close> without dot and separator; a
  path without extension is split as it is; and where the extension is one of the
  declared suffixes up to case, or empty, the result is the one the claim describes.
\<close>

theorem splitPath_strips_any_extension:
  "(CHR ''.'' \<notin> set e \<and> PathSeparator \<notin> set e \<longrightarrow>
      splitPath absPath (absPath @ [PathSeparator] @ stem @ CHR ''.'' # e)
        = Split stem PathSeparator) \<and>
   (Ext path = [] \<longrightarrow>
      splitPath absPath path
        = Split (TrimPrefix (TrimPrefix path absPath) [PathSeparator]) PathSeparator) \<and>
   (ToLower (Ext path) \<in> set formatSuffixes \<or> Ext path = [] \<longrightarrow>
      splitPath absPath path = splitPathSpec absPath path)"
proof (intro conjI impI)
  assume clean: "CHR ''.'' \<notin> set e \<and> PathSeparator \<notin> set e"
  let ?path = "absPath @ [PathSeparator] @ stem @ CHR ''.'' # e"
  have "Ext ?path = CHR ''.'' # e"
    using Ext_dot [of e "absPath @ [PathSeparator] @ stem"] clean by simp
  moreover have "TrimPrefix ?path absPath = ([PathSeparator] @ stem) @ CHR ''.'' # e"
    by simp
  ultimately have "TrimSuffix (TrimPrefix ?path absPath) (Ext ?path) = [PathSeparator] @ stem"
    by (simp only: TrimSuffix_append)
  then show "splitPath absPath ?path = Split stem PathSeparator"
    by (simp only: splitPath_def TrimPrefix_append)
next
  assume "Ext path = []"
  then show "splitPath absPath path
      = Split (TrimPrefix (TrimPrefix path absPath) [PathSeparator]) PathSeparator"
    by (simp add: splitPath_def TrimSuffix_def HasSuffix_def)
next
  assume "ToLower (Ext path) \<in> set formatSuffixes \<or> Ext path = []"
  then show "splitPath absPath path = splitPathSpec absPath path"
    by (auto simp: splitPath_def splitPathSpec_def Let_def TrimSuffix_def HasSuffix_def)
qed

theorem splitPath_strips_any_extension_witness:
  "CHR ''.'' \<notin> set ''properties'' \<and> PathSeparator \<notin> set ''properties'' \<and>
   splitPath ''/data'' ''/data/app/db.properties'' = [''app'', ''db''] \<and>
   Ext ''/data/app/Makefile'' = [] \<and>
   splitPath ''/data'' ''/data/app/Makefile'' = [''app'', ''Makefile''] \<and>
   ToLower (Ext ''/data/app/db.JSON'') \<in> set formatSuffixes \<and>
   splitPathSpec ''/data'' ''/data/app/db.JSON'' = [''app'', ''db'']"
proof -
  have a: "CHR ''.'' \<notin> set ''properties'' \<and> PathSeparator \<notin> set ''properties''"
    by (simp add: PathSeparator_def)
  have b: "Ext ''/data/app/Makefile'' = []"
    by code_simp
  have c: "ToLower (Ext ''/data/app/db.JSON'') \<in> set formatSuffixes"
    by code_simp
  from splitPath_strips_any_extension [where e = "''properties''" and absPath = "''/data''" and stem = "''app/db''"] a
  have "splitPath ''/data'' (''/data'' @ [PathSeparator] @ ''app/db'' @ CHR ''.'' # ''properties'')
      = Split ''app/db'' PathSeparator"
    by blast
  then have d: "splitPath ''/data'' ''/data/app/db.properties'' = [''app'', ''db'']"
    by (simp add: PathSeparator_def)
  from splitPath_strips_any_extension [where path = "''/data/app/Makefile''" and absPath = "''/data''"] b
  have "splitPath ''/data'' ''/data/app/Makefile''
      = Split (TrimPrefix (TrimPrefix ''/data/app/Makefile'' ''/data'') [PathSeparator])
          PathSeparator"
    by blast
  then have e: "splitPath ''/data'' ''/data/app/Makefile'' = [''app'', ''Makefile'']"
    by (simp add: PathSeparator_def TrimPrefix_def HasPrefix_def)
  from splitPath_strips_any_extension [where path = "''/data/app/db.JSON''" and absPath = "''/data''"] c
  have "splitPath ''/data'' ''/data/app/db.JSON'' = splitPathSpec ''/data'' ''/data/app/db.JSON''"
    by blast
  moreover have "splitPath ''/data'' ''/data/app/db.JSON'' = [''app'', ''db'']"
    by code_simp
  ultimately have f: "splitPathSpec ''/data'' ''/data/app/db.JSON'' = [''app'', ''db'']"
    by simp
  from a b c d e f show ?thesis by blast
qed

text \<open>
  C5. The claim: the sequence is emptied exactly when it is a single empty segment, and
  no derived sequence holds an empty segment next to others. The code tests the first
  segment only: the file \<open>/data/sub/.json\<close> gives the segments \<open>sub\<close> and the empty
  string, and \<open>/data//a.json\<close>, whose split is the empty string and \<open>a\<close>, gives the
  empty sequence.
\<close>

theorem keyPrefix_empty_segment_counterexample:
  "keyPrefix ''/data'' ''/data/sub/.json'' = Some [''sub'', []] \<and>
   splitPath ''/data'' ''/data//a.json'' = [[], ''a''] \<and>
   keyPrefix ''/data'' ''/data//a.json'' = Some []"
  by code_simp

text \<open>
  C5, as amended. The derived sequence is replaced by the empty sequence exactly when
  its first segment is the empty string, which includes the single empty segment of a file
  passed directly; otherwise it is kept as split. So a derived sequence never starts with
  an empty segment.
\<close>

theorem keyPrefix_first_segment:
  "(hd (splitPath absPath path) = [] \<longrightarrow> keyPrefix absPath path = Some []) \<and>
   (hd (splitPath absPath path) \<noteq> [] \<longrightarrow>
      keyPrefix absPath path = Some (splitPath absPath path)) \<and>
   (splitPath absPath path = [[]] \<longrightarrow> keyPrefix absPath path = Some []) \<and>
   (\<forall>segs. keyPrefix absPath path = Some segs \<and> segs \<noteq> [] \<longrightarrow> hd segs \<noteq> [])"
  by (auto simp: keyPrefix_Some)

theorem keyPrefix_first_segment_witness:
  "splitPath ''/data/a.json'' ''/data/a.json'' = [[]] \<and>
   keyPrefix ''/data/a.json'' ''/data/a.json'' = Some [] \<and>
   hd (splitPath ''/data'' ''/data/app/db.json'') \<noteq> [] \<and>
   keyPrefix ''/data'' ''/data/app/db.json'' = Some [''app'', ''db''] \<and>
   hd [''app'', ''db''] \<noteq> []"
proof -
  have a: "splitPath ''/data/a.json'' ''/data/a.json'' = [[]]"
    by code_simp
  have b: "splitPath ''/data'' ''/data/app/db.json'' = [''app'', ''db'']"
    by code_simp
  from keyPrefix_first_segment [of "''/data/a.json''" "''/data/a.json''"] a
  have c: "keyPrefix ''/data/a.json'' ''/data/a.json'' = Some []"
    by blast
  from keyPrefix_first_segment [of "''/data''" "''/data/app/db.json''"] b
  have d: "keyPrefix ''/data'' ''/data/app/db.json'' = Some [''app'', ''db'']"
    by simp
  from keyPrefix_first_segment [of "''/data''" "''/data/app/db.json''"] d
  have e: "hd [''app'', ''db''] \<noteq> []"
    by simp
  from a b c d e show ?thesis by simp
qed


section \<open>\<open>parseConfig\<close> and the walk\<close>

lemma data_emit [simp]: "data (emit e s) = data s"
  by (simp add: emit_def)

lemma events_emit [simp]: "events (emit e s) = events s @ [e]"
  by (simp add: emit_def)

lemma data_warnIf [simp]: "data (warnIf path err s) = data s"
  by (simp add: warnIf_def split: option.splits)




lemma unknown_extension:
  assumes "ToLower (Ext path) \<notin> {''.json'', ''.yml'', ''.yaml''}"
  shows "\<not> HasSuffix (ToLower path) ''.json''"
    and "\<not> HasSuffix (ToLower path) ''.yml''"
    and "\<not> HasSuffix (ToLower path) ''.yaml''"
proof -
  show "\<not> HasSuffix (ToLower path) ''.json''"
    using assms Ext_of_lower_suffix [of path "''json''"] by auto
  show "\<not> HasSuffix (ToLower path) ''.yml''"
    using assms Ext_of_lower_suffix [of path "''yml''"] by auto
  show "\<not> HasSuffix (ToLower path) ''.yaml''"
    using assms Ext_of_lower_suffix [of path "''yaml''"] by auto
qed

lemma parseBody_outcome:
  "(case parseBody h path fp kp s of
      Returned r s' \<Rightarrow> r = None | Exited c s' \<Rightarrow> c = 1 | Panicked s' \<Rightarrow> False)"
  by (simp add: parseBody_def Let_def split: prod.splits option.splits)

lemma parseOpened_outcome:
  "(case parseOpened h g path fp err s of
      Returned r s' \<Rightarrow> r = None | Exited c s' \<Rightarrow> c = 1 | Panicked s' \<Rightarrow> False)"
proof -
  from keyPrefix_Some obtain kp where "keyPrefix (gAbsPath g) path = Some kp" by blast
  then show ?thesis
    using parseBody_outcome [of h path fp kp "emit (Log Debug (MsgKeyprefix kp)) (warnIf path err s)"]
    by (simp add: parseOpened_def Let_def)
qed

lemma parseConfig_outcome:
  "(case parseConfig h w g path f err s of
      Returned r s' \<Rightarrow> r = None | Exited c s' \<Rightarrow> c = 1 | Panicked s' \<Rightarrow> f = None)"
proof (cases f)
  case None
  then show ?thesis by (simp add: parseConfig_def Let_def)
next
  case (Some fi)
  show ?thesis
  proof (cases "selectInput w g path fi err")
    case None
    with Some show ?thesis by (simp add: parseConfig_def Let_def)
  next
    case (Some input)
    obtain fp err' where "input = (fp, err')" by (cases input)
    with Some \<open>f = Some fi\<close>
    have "parseConfig h w g path f err s
        = parseOpened h g path fp err' (emit (Log Trace (MsgTraversing path)) s)"
      by (simp add: parseConfig_def Let_def)
    moreover have "parseOpened h g path fp err' (emit (Log Trace (MsgTraversing path)) s)
        \<noteq> Panicked s'" for s'
      using parseOpened_outcome [of h g path fp err' "emit (Log Trace (MsgTraversing path)) s"]
      by auto
    ultimately show ?thesis
      using parseOpened_outcome [of h g path fp err' "emit (Log Trace (MsgTraversing path)) s"]
      by (auto split: outcome.splits)
  qed
qed




text \<open>
  C10. \<open>parseConfig\<close> reads \<open>f.Mode()\<close> before it looks at the number of arguments:
  on a nil \<open>FileInfo\<close> it panics right after the trace line, for every path, error and
  number of arguments, and on a non-nil one it does not panic. \<open>main\<close> passes on what
  \<open>os.Stdin.Stat()\<close> returned without looking at its error, so a run on standard input
  whose \<open>Stat\<close> fails panics.
\<close>

theorem parseConfig_nil_FileInfo:
  "parseConfig h w g path None err s = Panicked (emit (Log Trace (MsgTraversing path)) s) \<and>
   (\<forall>s'. parseConfig h w g path (Some fi) err s \<noteq> Panicked s') \<and>
   (osArgs w = [] \<and> (flagFormat w = ''json'' \<or> flagFormat w = ''yaml'') \<and> stdinStat w = None
      \<longrightarrow> (\<exists>s'. main h w = Panicked s'))"
proof (intro conjI allI impI)
  show "parseConfig h w g path None err s = Panicked (emit (Log Trace (MsgTraversing path)) s)"
    by (simp add: parseConfig_def Let_def)
next
  fix s'
  show "parseConfig h w g path (Some fi) err s \<noteq> Panicked s'"
    using parseConfig_outcome [where h = h and w = w and g = g and path = path and f = "Some fi" and err = err and s = s] by auto
next
  assume "osArgs w = [] \<and> (flagFormat w = ''json'' \<or> flagFormat w = ''yaml'') \<and>
      stdinStat w = None"
  then show "\<exists>s'. main h w = Panicked s'"
    by (auto simp: main_def parseConfig_def Let_def)
qed

theorem parseConfig_nil_FileInfo_witness:
  "osArgs (demoWorld\<lparr>osArgs := [], flagFormat := ''json'', stdinStat := None\<rparr>) = [] \<and>
   flagFormat (demoWorld\<lparr>osArgs := [], flagFormat := ''json'', stdinStat := None\<rparr>) = ''json'' \<and>
   stdinStat (demoWorld\<lparr>osArgs := [], flagFormat := ''json'', stdinStat := None\<rparr>) = None \<and>
   (\<exists>s'. main demoHelpers (demoWorld\<lparr>osArgs := [], flagFormat := ''json'', stdinStat := None\<rparr>)
      = Panicked s')"
  using parseConfig_nil_FileInfo
    [where w = "demoWorld\<lparr>osArgs := [], flagFormat := ''json'', stdinStat := None\<rparr>"
       and h = demoHelpers]
  by simp

text \<open>
  C7. For a file whose extension is \<open>.properties\<close>, \<open>.ini\<close> or anything else outside
  \<open>.json\<close>, \<open>.yml\<close>, \<open>.yaml\<close> (compared without case), \<open>parseConfig\<close>, called
  with the file's \<open>FileInfo\<close>, returns nil and leaves the map as it was, and the walk
  goes on with the next entry.
\<close>

theorem parseConfig_unsupported_format:
  assumes "ToLower (Ext path) \<notin> {''.json'', ''.yml'', ''.yaml''}"
  shows "\<exists>s'. parseConfig h w g path (Some fi) err s = Returned None s' \<and> data s' = data s \<and>
           Walk h w g ((path, Some fi, err) # rest) s = Walk h w g rest s'"
proof -
  note no = unknown_extension [OF assms]
  have body: "\<exists>s'. parseBody h path fp kp t = Returned None s' \<and> data s' = data t"
    for fp kp t
    using no by (simp add: parseBody_def)
  have opened: "\<exists>s'. parseOpened h g path fp e t = Returned None s' \<and> data s' = data t"
    for fp e t
    using body [of fp _ "emit _ (warnIf path e t)"]
    by (simp add: parseOpened_def Let_def keyPrefix_Some)
  have "\<exists>s'. parseConfig h w g path (Some fi) err s = Returned None s' \<and> data s' = data s"
  proof (cases "selectInput w g path fi err")
    case None
    then show ?thesis by (simp add: parseConfig_def Let_def)
  next
    case (Some input)
    obtain fp e where "input = (fp, e)" by (cases input)
    with Some opened [of fp e "emit (Log Trace (MsgTraversing path)) s"] show ?thesis
      by (simp add: parseConfig_def Let_def)
  qed
  then show ?thesis by auto
qed

theorem parseConfig_unsupported_format_witness:
  "ToLower (Ext ''/data/notes.txt'') \<notin> {''.json'', ''.yml'', ''.yaml''} \<and>
   (\<exists>s'. parseConfig demoHelpers demoWorld demoGlobals ''/data/notes.txt''
            (Some (FileInfo True)) None emptyState = Returned None s' \<and>
          data s' = data emptyState)"
proof -
  have a: "ToLower (Ext ''/data/notes.txt'') \<notin> {''.json'', ''.yml'', ''.yaml''}"
    by code_simp
  from parseConfig_unsupported_format [OF a, of demoHelpers demoWorld demoGlobals
      "FileInfo True" None emptyState "[]"] a
  show ?thesis by blast
qed


section \<open>Parse failures\<close>




section \<open>Exit codes of \<open>main\<close>\<close>

lemma finish_after_dump:
  assumes "flagSync w \<longrightarrow> (\<forall>s2. \<exists>s3. syncConsul h s2 = Returned () s3)"
  shows "\<exists>s'. (if flagSync w then
                 (case syncConsul h (emit SyncCalled s2) of
                    Returned u' s3 \<Rightarrow> Exited 0 s3
                  | Exited c s3 \<Rightarrow> Exited c s3
                  | Panicked s3 \<Rightarrow> Panicked s3)
               else Exited 0 s2) = (Exited 0 s' :: unit outcome)"
proof (cases "flagSync w")
  case True
  with assms obtain s3 where "syncConsul h (emit SyncCalled s2) = Returned () s3" by blast
  with True show ?thesis by simp
next
  case False
  then show ?thesis by simp
qed

lemma finish_all_clear:
  assumes "flagDump w \<longrightarrow>
      (\<exists>s2. exportData h w (emit (Log Info (MsgFoundKeys (card (dom (data s))))) s)
         = Returned () s2)"
    and "flagSync w \<longrightarrow> (\<forall>s2. \<exists>s3. syncConsul h s2 = Returned () s3)"
  shows "\<exists>s'. finish h w s = Exited 0 s'"
proof (cases "flagDump w")
  case True
  with assms(1) obtain s2 where
    "exportData h w (emit (Log Info (MsgFoundKeys (card (dom (data s))))) s) = Returned () s2"
    by blast
  with True finish_after_dump [OF assms(2), of s2] show ?thesis
    by (simp add: finish_def Let_def)
next
  case False
  with finish_after_dump [OF assms(2), of "emit (Log Info (MsgFoundKeys (card (dom (data s))))) s"]
  show ?thesis
    by (simp add: finish_def Let_def)
qed

text \<open>
  C2. The claim: every usage error exits with code 255. With no argument and a
  \<open>-format\<close> that is neither \<open>json\<close> nor \<open>yaml\<close> (here: absent), \<open>main\<close> calls
  \<open>os.Exit(1)\<close>.
\<close>

theorem main_missing_format_counterexample:
  "main demoHelpers (demoWorld\<lparr>osArgs := []\<rparr>)
     = Exited 1 \<lparr>data = Map.empty,
                 events = [Log Trace MsgNoArguments, Log Error MsgFormatRequired, UsageShown]\<rparr>"
  by (simp add: main_def demoWorld_def usage_def emit_def)

text \<open>
  C2, as amended. With two or more arguments the process exits with code 255; with no
  argument and a \<open>-format\<close> other than \<open>json\<close> and \<open>yaml\<close> it exits with code 1. In
  both cases nothing was read, parsed, dumped or synced: the map is empty and only the
  error line and the usage text were printed. A run in which nothing fails (the path is
  found, the walk or the read of standard input returns, and the dump and the sync, when
  asked for, return) exits with code 0.
\<close>

theorem main_exit_codes:
  "(2 \<le> length (osArgs w) \<longrightarrow>
      main h w = Exited 255 \<lparr>data = Map.empty,
        events = [Log Error (MsgArgumentCount (length (osArgs w))), UsageShown]\<rparr>) \<and>
   (osArgs w = [] \<and> flagFormat w \<noteq> ''json'' \<and> flagFormat w \<noteq> ''yaml'' \<longrightarrow>
      main h w = Exited 1 \<lparr>data = Map.empty,
        events = [Log Trace MsgNoArguments, Log Error MsgFormatRequired, UsageShown]\<rparr>) \<and>
   (osArgs w = [p] \<and> fsStat w (fsAbs w p) = None \<and>
    Walk h w \<lparr>gPrefix = cleanPrefix (flagPrefix w), gNArgs = 1, gPath = p, gAbsPath = fsAbs w p\<rparr>
      (fsWalk w (fsAbs w p))
      \<lparr>data = Map.empty, events = [Log Info (MsgLookingAt (fsAbs w p))]\<rparr> = Returned None s1 \<and>
    (flagDump w \<longrightarrow>
       (\<exists>s2. exportData h w (emit (Log Info (MsgFoundKeys (card (dom (data s1))))) s1)
          = Returned () s2)) \<and>
    (flagSync w \<longrightarrow> (\<forall>s2. \<exists>s3. syncConsul h s2 = Returned () s3)) \<longrightarrow>
      (\<exists>s'. main h w = Exited 0 s')) \<and>
   (osArgs w = [] \<and> (flagFormat w = ''json'' \<or> flagFormat w = ''yaml'') \<and>
    parseConfig h w \<lparr>gPrefix = cleanPrefix (flagPrefix w), gNArgs = 0, gPath = [], gAbsPath = []\<rparr>
      (''.'' @ flagFormat w) (stdinStat w) None
      \<lparr>data = Map.empty,
        events = [Log Trace MsgNoArguments, Log Info (MsgLookingStdin (flagFormat w))]\<rparr>
      = Returned None s1 \<and>
    (flagDump w \<longrightarrow>
       (\<exists>s2. exportData h w (emit (Log Info (MsgFoundKeys (card (dom (data s1))))) s1)
          = Returned () s2)) \<and>
    (flagSync w \<longrightarrow> (\<forall>s2. \<exists>s3. syncConsul h s2 = Returned () s3)) \<longrightarrow>
      (\<exists>s'. main h w = Exited 0 s'))"
proof (intro conjI impI)
  assume "2 \<le> length (osArgs w)"
  then obtain a b rest where "osArgs w = a # b # rest"
    by (cases "osArgs w"; cases "tl (osArgs w)") auto
  then show "main h w = Exited 255 \<lparr>data = Map.empty,
      events = [Log Error (MsgArgumentCount (length (osArgs w))), UsageShown]\<rparr>"
    by (simp add: main_def usage_def emit_def)
next
  assume "osArgs w = [] \<and> flagFormat w \<noteq> ''json'' \<and> flagFormat w \<noteq> ''yaml''"
  then show "main h w = Exited 1 \<lparr>data = Map.empty,
      events = [Log Trace MsgNoArguments, Log Error MsgFormatRequired, UsageShown]\<rparr>"
    by (simp add: main_def usage_def emit_def)
next
  assume h: "osArgs w = [p] \<and> fsStat w (fsAbs w p) = None \<and>
    Walk h w \<lparr>gPrefix = cleanPrefix (flagPrefix w), gNArgs = 1, gPath = p, gAbsPath = fsAbs w p\<rparr>
      (fsWalk w (fsAbs w p))
      \<lparr>data = Map.empty, events = [Log Info (MsgLookingAt (fsAbs w p))]\<rparr> = Returned None s1 \<and>
    (flagDump w \<longrightarrow>
       (\<exists>s2. exportData h w (emit (Log Info (MsgFoundKeys (card (dom (data s1))))) s1)
          = Returned () s2)) \<and>
    (flagSync w \<longrightarrow> (\<forall>s2. \<exists>s3. syncConsul h s2 = Returned () s3))"
  then have "main h w = finish h w s1"
    by (simp add: main_def emit_def)
  with h finish_all_clear [of w h s1] show "\<exists>s'. main h w = Exited 0 s'"
    by simp
next
  assume h: "osArgs w = [] \<and> (flagFormat w = ''json'' \<or> flagFormat w = ''yaml'') \<and>
    parseConfig h w \<lparr>gPrefix = cleanPrefix (flagPrefix w), gNArgs = 0, gPath = [], gAbsPath = []\<rparr>
      (''.'' @ flagFormat w) (stdinStat w) None
      \<lparr>data = Map.empty,
        events = [Log Trace MsgNoArguments, Log Info (MsgLookingStdin (flagFormat w))]\<rparr>
      = Returned None s1 \<and>
    (flagDump w \<longrightarrow>
       (\<exists>s2. exportData h w (emit (Log Info (MsgFoundKeys (card (dom (data s1))))) s1)
          = Returned () s2)) \<and>
    (flagSync w \<longrightarrow> (\<forall>s2. \<exists>s3. syncConsul h s2 = Returned () s3))"
  then have "main h w = finish h w s1"
    by (auto simp: main_def emit_def)
  with h finish_all_clear [of w h s1] show "\<exists>s'. main h w = Exited 0 s'"
    by simp
qed

theorem main_exit_codes_witness:
  "2 \<le> length (osArgs (demoWorld\<lparr>osArgs := [''/data'', ''/etc'']\<rparr>)) \<and>
   main demoHelpers (demoWorld\<lparr>osArgs := [''/data'', ''/etc'']\<rparr>)
     = Exited 255 \<lparr>data = Map.empty, events = [Log Error (MsgArgumentCount 2), UsageShown]\<rparr> \<and>
   osArgs (demoWorld\<lparr>osArgs := [], flagFormat := ''xml''\<rparr>) = [] \<and>
   main demoHelpers (demoWorld\<lparr>osArgs := [], flagFormat := ''xml''\<rparr>)
     = Exited 1 \<lparr>data = Map.empty,
         events = [Log Trace MsgNoArguments, Log Error MsgFormatRequired, UsageShown]\<rparr> \<and>
   (\<exists>s'. main demoHelpers
            (demoWorld\<lparr>fsWalk := (\<lambda>p. [(p, Some (FileInfo False), None)])\<rparr>) = Exited 0 s') \<and>
   (\<exists>s'. main demoHelpers
            (demoWorld\<lparr>osArgs := [], flagFormat := ''json'', flagDump := True,
               flagSync := True\<rparr>) = Exited 0 s')"
proof -
  let ?w2 = "demoWorld\<lparr>osArgs := [''/data'', ''/etc'']\<rparr>"
  let ?w1 = "demoWorld\<lparr>osArgs := [], flagFormat := ''xml''\<rparr>"
  let ?w3 = "demoWorld\<lparr>fsWalk := (\<lambda>p. [(p, Some (FileInfo False), None)])\<rparr>"
  let ?w4 = "demoWorld\<lparr>osArgs := [], flagFormat := ''json'', flagDump := True,
      flagSync := True\<rparr>"
  have a: "2 \<le> length (osArgs ?w2)" by simp
  from main_exit_codes [where w = ?w2 and h = demoHelpers] a
  have a': "main demoHelpers ?w2
      = Exited 255 \<lparr>data = Map.empty, events = [Log Error (MsgArgumentCount 2), UsageShown]\<rparr>"
    by simp
  have b: "osArgs ?w1 = [] \<and> flagFormat ?w1 \<noteq> ''json'' \<and> flagFormat ?w1 \<noteq> ''yaml''"
    by simp
  from main_exit_codes [where w = ?w1 and h = demoHelpers] b
  have b': "main demoHelpers ?w1 = Exited 1 \<lparr>data = Map.empty,
         events = [Log Trace MsgNoArguments, Log Error MsgFormatRequired, UsageShown]\<rparr>"
    by blast
  have c: "osArgs ?w3 = [''/data''] \<and> fsStat ?w3 (fsAbs ?w3 ''/data'') = None \<and>
      Walk demoHelpers ?w3
        \<lparr>gPrefix = cleanPrefix (flagPrefix ?w3), gNArgs = 1, gPath = ''/data'',
           gAbsPath = fsAbs ?w3 ''/data''\<rparr>
        (fsWalk ?w3 (fsAbs ?w3 ''/data''))
        \<lparr>data = Map.empty, events = [Log Info (MsgLookingAt (fsAbs ?w3 ''/data''))]\<rparr>
        = Returned None \<lparr>data = Map.empty,
            events = [Log Info (MsgLookingAt ''/data''), Log Trace (MsgTraversing ''/data'')]\<rparr> \<and>
      \<not> flagDump ?w3 \<and> \<not> flagSync ?w3"
    by (simp add: demoWorld_def parseConfig_def selectInput_def emit_def)
  from main_exit_codes [where w = ?w3 and h = demoHelpers and p = "''/data''"] c
  have c': "\<exists>s'. main demoHelpers ?w3 = Exited 0 s'"
    by blast
  have k: "keyPrefix [] ''.json'' = Some []" by code_simp
  have j: "HasSuffix (ToLower ''.json'') ''.json''" by code_simp
  let ?s1 = "\<lparr>data = [''host'' \<mapsto> ''x''],
      events = [Log Trace MsgNoArguments, Log Info (MsgLookingStdin ''json''),
        Log Trace (MsgTraversing ''.json''), Log Debug (MsgKeyprefix []),
        Log Debug (MsgParsingAs ''.json'' ''json'')]\<rparr>"
  have d1: "parseConfig demoHelpers ?w4
        \<lparr>gPrefix = cleanPrefix (flagPrefix ?w4), gNArgs = 0, gPath = [], gAbsPath = []\<rparr>
        (''.'' @ flagFormat ?w4) (stdinStat ?w4) None
        \<lparr>data = Map.empty,
          events = [Log Trace MsgNoArguments, Log Info (MsgLookingStdin (flagFormat ?w4))]\<rparr>
        = Returned None ?s1"
    using k j
    by (simp add: demoWorld_def demoHelpers_def demoParseJson_def joinKey_def parseConfig_def
        selectInput_def parseOpened_def parseBody_def warnIf_def emit_def)
  have d2: "\<exists>s2. exportData demoHelpers ?w4
      (emit (Log Info (MsgFoundKeys (card (dom (data ?s1))))) ?s1) = Returned () s2"
    by (simp add: exportData_def exportedEntries_def demoWorld_def demoHelpers_def emit_def)
  have d3: "\<forall>s2. \<exists>s3. syncConsul demoHelpers s2 = Returned () s3"
    by (simp add: demoHelpers_def)
  have d: "osArgs ?w4 = [] \<and> (flagFormat ?w4 = ''json'' \<or> flagFormat ?w4 = ''yaml'')"
    by simp
  from main_exit_codes [where w = ?w4 and h = demoHelpers and ?s1.0 = ?s1] d d1 d2 d3
  have d': "\<exists>s'. main demoHelpers ?w4 = Exited 0 s'"
    by blast
  from a a' b b' c' d' show ?thesis by simp
qed


section \<open>The dump\<close>

lemma fillExported_eq:
  "set keys \<subseteq> dom d \<Longrightarrow> i + length keys \<le> length exported \<Longrightarrow>
   fillExported te d keys i exported =
     Some (take i exported @ map (\<lambda>k. Some (te k (the (d k)))) keys
             @ drop (i + length keys) exported)"
proof (induction keys arbitrary: i exported)
  case Nil
  then show ?case by simp
next
  case (Cons key keys)
  from Cons.prems(1) obtain val where val: "d key = Some val" by auto
  from Cons.prems(2) have i: "i < length exported" by simp
  let ?ex = "exported[i := Some (te key val)]"
  have "fillExported te d keys (Suc i) ?ex =
      Some (take (Suc i) ?ex @ map (\<lambda>k. Some (te k (the (d k)))) keys
              @ drop (Suc i + length keys) ?ex)"
    using Cons.prems by (intro Cons.IH) auto
  moreover have "take (Suc i) ?ex = take i exported @ [Some (te key val)]"
    using i by (simp add: take_Suc_conv_app_nth)
  moreover have "drop (Suc i + length keys) ?ex = drop (i + length (key # keys)) exported"
    by simp
  ultimately show ?case using val i by simp
qed

lemma exportedEntries_eq:
  assumes "rangeOf keys d"
  shows "exportedEntries te keys d = Some (map (\<lambda>k. Some (te k (the (d k)))) keys)"
proof -
  from assms have len: "length keys = card (dom d)"
    by (metis rangeOf_def distinct_card)
  from assms have "set keys \<subseteq> dom d" by (simp add: rangeOf_def)
  then have "fillExported te d keys 0 (replicate (card (dom d)) None) =
      Some (take 0 (replicate (card (dom d)) None) @ map (\<lambda>k. Some (te k (the (d k)))) keys
              @ drop (0 + length keys) (replicate (card (dom d)) None))"
    using len by (intro fillExported_eq) simp_all
  with len show ?thesis by (simp add: exportedEntries_def)
qed

text \<open>
  C1. The claim: the entries come out sorted by key, the same in every run. The loop of
  \<open>exportData\<close> stores them in the order in which \<open>range\<close> yields the keys, and
  nothing sorts them: for the map with the keys \<open>a\<close> and \<open>b\<close>, a run in which
  \<open>range\<close> yields \<open>b\<close> first exports \<open>b\<close> before \<open>a\<close>, and a run in which it yields
  \<open>a\<close> first exports another sequence.
\<close>

theorem exportData_order_counterexample:
  "rangeOf [''b'', ''a''] [''a'' \<mapsto> ''1'', ''b'' \<mapsto> ''2''] \<and>
   rangeOf [''a'', ''b''] [''a'' \<mapsto> ''1'', ''b'' \<mapsto> ''2''] \<and>
   exportedEntries Pair [''b'', ''a''] [''a'' \<mapsto> ''1'', ''b'' \<mapsto> ''2'']
     = Some [Some (''b'', ''2''), Some (''a'', ''1'')] \<and>
   exportedEntries Pair [''a'', ''b''] [''a'' \<mapsto> ''1'', ''b'' \<mapsto> ''2'']
     = Some [Some (''a'', ''1''), Some (''b'', ''2'')] \<and>
   \<not> sorted (map (\<lambda>entry. fst (the entry))
          (the (exportedEntries Pair [''b'', ''a''] [''a'' \<mapsto> ''1'', ''b'' \<mapsto> ''2''])))"
proof -
  have r1: "rangeOf [''b'', ''a''] [''a'' \<mapsto> ''1'', ''b'' \<mapsto> ''2'']"
    by (auto simp: rangeOf_def)
  have r2: "rangeOf [''a'', ''b''] [''a'' \<mapsto> ''1'', ''b'' \<mapsto> ''2'']"
    by (auto simp: rangeOf_def)
  have c: "card (dom [''a'' \<mapsto> ''1'', ''b'' \<mapsto> ''2'']) = 2"
    by simp
  have e1: "exportedEntries Pair [''b'', ''a''] [''a'' \<mapsto> ''1'', ''b'' \<mapsto> ''2'']
      = Some [Some (''b'', ''2''), Some (''a'', ''1'')]"
    unfolding exportedEntries_def c by (simp add: numeral_2_eq_2)
  have e2: "exportedEntries Pair [''a'', ''b''] [''a'' \<mapsto> ''1'', ''b'' \<mapsto> ''2'']
      = Some [Some (''a'', ''1''), Some (''b'', ''2'')]"
    unfolding exportedEntries_def c by (simp add: numeral_2_eq_2)
  have "\<not> ''b'' \<le> ''a''" by code_simp
  then have s: "\<not> sorted (map (\<lambda>entry. fst (the entry))
      (the (exportedEntries Pair [''b'', ''a''] [''a'' \<mapsto> ''1'', ''b'' \<mapsto> ''2''])))"
    unfolding e1 by simp
  from r1 r2 e1 e2 s show ?thesis by blast
qed

text \<open>
  C1, as amended. For every map and every order in which \<open>range\<close> yields its keys (each
  key once), \<open>exportData\<close> builds exactly one export entry per flat entry, in that order;
  the slice has as many entries as the map has keys, no index is out of range, and the
  entries, taken as a multiset, depend on the map alone. What is written to standard
  output is the encoding of that slice.
\<close>

theorem exportData_one_entry_per_key:
  assumes "rangeOf keys d"
  shows "exportedEntries te keys d = Some (map (\<lambda>k. Some (te k (the (d k)))) keys) \<and>
         length (map (\<lambda>k. Some (te k (the (d k)))) keys) = card (dom d) \<and>
         mset (map (\<lambda>k. Some (te k (the (d k)))) keys)
           = image_mset (\<lambda>k. Some (te k (the (d k)))) (mset_set (dom d)) \<and>
         (rangeOrder w d = keys \<and> data s = d \<and> toExportEntry h = te \<longrightarrow>
            exportData h w s =
              (case marshalIndent h (map (\<lambda>k. Some (te k (the (d k)))) keys) of
                 Inl e \<Rightarrow> Exited 1 (emit (Log Error (MsgExportError e)) s)
               | Inr js \<Rightarrow> Returned () (emit (StdoutWrite [CHR 0x0A]) (emit (StdoutWrite js) s))))"
proof (intro conjI impI)
  show "exportedEntries te keys d = Some (map (\<lambda>k. Some (te k (the (d k)))) keys)"
    using assms by (rule exportedEntries_eq)
  show "length (map (\<lambda>k. Some (te k (the (d k)))) keys) = card (dom d)"
    using assms by (metis rangeOf_def distinct_card length_map)
  from assms have "mset keys = mset_set (dom d)"
    by (metis rangeOf_def mset_set_set)
  then show "mset (map (\<lambda>k. Some (te k (the (d k)))) keys)
      = image_mset (\<lambda>k. Some (te k (the (d k)))) (mset_set (dom d))"
    by (metis mset_map)
next
  assume "rangeOrder w d = keys \<and> data s = d \<and> toExportEntry h = te"
  then show "exportData h w s =
      (case marshalIndent h (map (\<lambda>k. Some (te k (the (d k)))) keys) of
         Inl e \<Rightarrow> Exited 1 (emit (Log Error (MsgExportError e)) s)
       | Inr js \<Rightarrow> Returned () (emit (StdoutWrite [CHR 0x0A]) (emit (StdoutWrite js) s)))"
    using exportedEntries_eq [OF assms, of te] by (auto simp: exportData_def)
qed

theorem exportData_one_entry_per_key_witness:
  "rangeOf [''b'', ''a''] [''a'' \<mapsto> ''1'', ''b'' \<mapsto> ''2''] \<and>
   exportedEntries Pair [''b'', ''a''] [''a'' \<mapsto> ''1'', ''b'' \<mapsto> ''2'']
     = Some [Some (''b'', ''2''), Some (''a'', ''1'')] \<and>
   length [Some (''b'', ''2''), Some (''a'', ''1'')]
     = card (dom [''a'' \<mapsto> ''1'', ''b'' \<mapsto> ''2'']) \<and>
   rangeOrder (demoWorld\<lparr>rangeOrder := (\<lambda>d. [''b'', ''a''])\<rparr>)
     [''a'' \<mapsto> ''1'', ''b'' \<mapsto> ''2''] = [''b'', ''a''] \<and>
   exportData demoHelpers (demoWorld\<lparr>rangeOrder := (\<lambda>d. [''b'', ''a''])\<rparr>)
       \<lparr>data = [''a'' \<mapsto> ''1'', ''b'' \<mapsto> ''2''], events = []\<rparr>
     = Returned () \<lparr>data = [''a'' \<mapsto> ''1'', ''b'' \<mapsto> ''2''],
                     events = [StdoutWrite ''[]'', StdoutWrite [CHR 0x0A]]\<rparr>"
proof -
  let ?d = "[''a'' \<mapsto> ''1'', ''b'' \<mapsto> ''2'']"
  let ?w = "demoWorld\<lparr>rangeOrder := (\<lambda>d. [''b'', ''a''])\<rparr>"
  let ?s = "\<lparr>data = ?d, events = []\<rparr>"
  have r: "rangeOf [''b'', ''a''] ?d"
    by (auto simp: rangeOf_def)
  have o: "rangeOrder ?w ?d = [''b'', ''a''] \<and> data ?s = ?d \<and> toExportEntry demoHelpers = Pair"
    by (simp add: demoHelpers_def)
  note inst = exportData_one_entry_per_key [OF r, where te = Pair and w = ?w and s = ?s
      and h = demoHelpers]
  from inst have e: "exportedEntries Pair [''b'', ''a''] ?d
      = Some [Some (''b'', ''2''), Some (''a'', ''1'')]"
    by simp
  from inst have l: "length [Some (''b'', ''2''), Some (''a'', ''1'')] = card (dom ?d)"
    by simp
  from inst o have "exportData demoHelpers ?w ?s =
      (case marshalIndent demoHelpers
              (map (\<lambda>k. Some (k, the (?d k))) [''b'', ''a'']) of
         Inl e \<Rightarrow> Exited 1 (emit (Log Error (MsgExportError e)) ?s)
       | Inr js \<Rightarrow> Returned () (emit (StdoutWrite [CHR 0x0A]) (emit (StdoutWrite js) ?s)))"
    by blast
  then have x: "exportData demoHelpers ?w ?s
      = Returned () \<lparr>data = ?d, events = [StdoutWrite ''[]'', StdoutWrite [CHR 0x0A]]\<rparr>"
    by (simp add: demoHelpers_def emit_def)
  from o have o': "rangeOrder ?w ?d = [''b'', ''a'']" by (rule conjunct1)
  from r e l o' x show ?thesis by blast
qed

end
